theory Spec2Isabelle
  imports Main "HOL-Library.Sublist"
begin

section \<open>Schema contracts (types.ts)\<close>

text \<open>
  The interfaces of \<^verbatim>\<open>types.ts\<close> become records and its string-literal unions
  become datatypes. A question record as the capability returns it has neither
  \<^verbatim>\<open>id\<close> nor \<^verbatim>\<open>partName\<close>: these two are added by
  \<^verbatim>\<open>generatePartMCQs\<close> with an object spread, so \<open>MCQ\<close> is the extension of
  \<open>RawMCQ\<close> by exactly these two fields. The field \<^verbatim>\<open>id\<close> is written \<open>id'\<close>.
\<close>

datatype Answer = Answer_A | Answer_B | Answer_C | Answer_D

datatype Difficulty = Easy | Moderate | Challenging

record Options =
  A :: string
  B :: string
  C :: string
  D :: string

record RawMCQ =
  chapterTitle :: string
  question :: string
  options :: Options
  correctAnswer :: Answer
  topic :: string
  difficulty :: Difficulty
  explanation :: "string option"

record MCQ = RawMCQ +
  id' :: string
  partName :: string

record Chapter =
  title :: string
  topics :: "string list"

record Part =
  name :: string
  chapterTitles :: "string list"

record TextbookAnalysis =
  chapters :: "Chapter list"
  parts :: "Part list"
  totalTopics :: int
  summary :: string

datatype AppStatus = IDLE | ANALYZING | READY_TO_GENERATE | GENERATING | COMPLETED

record FileData =
  name :: string
  type :: string
  base64 :: string

section \<open>JavaScript primitives used by the code\<close>

text \<open>
  A thrown value is a \<open>js_error\<close> carrying its \<^verbatim>\<open>message\<close>. The generation
  capability and \<^verbatim>\<open>JSON.parse\<close> are outside the repository: what one awaited call
  followed by \<^verbatim>\<open>JSON.parse(response.text)\<close> produced is a \<open>reply\<close>, either a
  rejected call (a constructor of the service that throws counts as one), a text that
  \<^verbatim>\<open>JSON.parse\<close> refuses, or the parsed value. The code casts the parsed value to
  the declared type without looking at it, and \<open>Parsed\<close> carries it at that type.
\<close>

datatype js_error = TypeError string | SyntaxError string | CapabilityError string

fun message :: "js_error \<Rightarrow> string" where
  "message (TypeError m) = m"
| "message (SyntaxError m) = m"
| "message (CapabilityError m) = m"

datatype 'a reply = Rejected string | Malformed string | Parsed 'a

text \<open>\<^verbatim>\<open>xs[i]\<close>: \<open>None\<close> stands for \<^verbatim>\<open>undefined\<close>.\<close>

definition at :: "'a list \<Rightarrow> nat \<Rightarrow> 'a option" where
  "at xs i = (if i < length xs then Some (xs ! i) else None)"

text \<open>\<^verbatim>\<open>s.split(c)\<close> for a one-character separator.\<close>

fun split :: "char \<Rightarrow> string \<Rightarrow> string list" where
  "split c [] = [[]]"
| "split c (x # xs) =
     (if x = c then [] # split c xs
      else (case split c xs of w # ws \<Rightarrow> (x # w) # ws | [] \<Rightarrow> [[x]]))"

text \<open>\<^verbatim>\<open>xs.join(sep)\<close> on an array of strings.\<close>

fun join :: "string \<Rightarrow> string list \<Rightarrow> string" where
  "join sep [] = []"
| "join sep [x] = x"
| "join sep (x # y # ys) = x @ sep @ join sep (y # ys)"

text \<open>\<^verbatim>\<open>s.replace(/"/g, '""')\<close>: every double quote is doubled.\<close>

definition dquote :: char where
  "dquote = CHR 0x22"

fun doubleQuotes :: "string \<Rightarrow> string" where
  "doubleQuotes [] = []"
| "doubleQuotes (x # xs) = (if x = dquote then [dquote, dquote] else [x]) @ doubleQuotes xs"

text \<open>The decimal text of a non-negative integer, as a template literal prints it.\<close>

definition digitChar :: "nat \<Rightarrow> char" where
  "digitChar d = char_of (48 + d)"

fun showNat :: "nat \<Rightarrow> string" where
  "showNat n = (if n < 10 then [digitChar n] else showNat (n div 10) @ [digitChar (n mod 10)])"

declare showNat.simps [simp del]

section \<open>Content extraction and analysis (geminiService.ts)\<close>

record InlineData =
  mimeType :: string
  data :: string

text \<open>
  The block built for one file by the \<^verbatim>\<open>files.map\<close> of \<^verbatim>\<open>analyzeTextbook\<close>:
  \<^verbatim>\<open>data: file.base64.split(',')[1] || file.base64\<close>. The right operand of
  \<^verbatim>\<open>||\<close> is taken when the left one is \<^verbatim>\<open>undefined\<close> or the empty string.
\<close>

definition inlineData :: "FileData \<Rightarrow> InlineData" where
  "inlineData file =
     \<lparr> mimeType = type file,
       data = (case at (split CHR '','' (base64 file)) 1 of
                 None \<Rightarrow> base64 file
               | Some seg \<Rightarrow> if seg = [] then base64 file else seg) \<rparr>"

definition analysisContents :: "FileData list \<Rightarrow> InlineData list" where
  "analysisContents files = map inlineData files"

text \<open>
  \<^verbatim>\<open>analyzeTextbook\<close> returns \<^verbatim>\<open>JSON.parse(response.text)\<close> as it is; a rejected
  call and a \<^verbatim>\<open>SyntaxError\<close> of \<^verbatim>\<open>JSON.parse\<close> propagate to the caller.
\<close>

definition analyzeTextbook :: "FileData list \<Rightarrow> TextbookAnalysis reply \<Rightarrow> js_error + TextbookAnalysis" where
  "analyzeTextbook files r =
     (case r of
        Rejected m \<Rightarrow> Inl (CapabilityError m)
      | Malformed m \<Rightarrow> Inl (SyntaxError m)
      | Parsed result \<Rightarrow> Inr result)"

section \<open>Part generation (geminiService.ts)\<close>

text \<open>The \<^verbatim>\<open>id\<close> template literal \<^verbatim>\<open>`part-${partIndex}-q-${i}`\<close>.\<close>

definition mkId :: "nat \<Rightarrow> nat \<Rightarrow> string" where
  "mkId partIndex i = ''part-'' @ showNat partIndex @ ''-q-'' @ showNat i"

text \<open>
  \<^verbatim>\<open>analysis.chapters.filter(ch => currentPart.chapterTitles.includes(ch.title))\<close>
\<close>

definition partChapters :: "TextbookAnalysis \<Rightarrow> Part \<Rightarrow> Chapter list" where
  "partChapters analysis currentPart =
     filter (\<lambda>ch. title ch \<in> set (chapterTitles currentPart)) (chapters analysis)"

text \<open>
  The instruction is a fixed text with three holes: the name of the part, the chapters of
  the part (printed by \<^verbatim>\<open>JSON.stringify\<close>) and their number. The record keeps what
  fills the holes.
\<close>

record PartPrompt =
  promptPartName :: string
  promptChapters :: "Chapter list"
  promptChapterCount :: nat

text \<open>Reading a property of \<^verbatim>\<open>undefined\<close> throws a \<^verbatim>\<open>TypeError\<close>.\<close>

definition undefinedRead :: "string \<Rightarrow> js_error" where
  "undefinedRead prop =
     TypeError (''Cannot read properties of undefined (reading '' @ [CHR 0x27] @ prop @ [CHR 0x27] @ '')'')"

text \<open>
  When \<^verbatim>\<open>analysis.parts[partIndex]\<close> is \<^verbatim>\<open>undefined\<close>, the first read of
  \<^verbatim>\<open>currentPart\<close> throws: inside the filter callback when there is a chapter to
  visit, in the template literal otherwise. No request is sent then.
\<close>

definition partPrompt :: "TextbookAnalysis \<Rightarrow> nat \<Rightarrow> js_error + PartPrompt" where
  "partPrompt analysis partIndex =
     (case at (parts analysis) partIndex of
        None \<Rightarrow>
          Inl (undefinedRead (if chapters analysis = [] then ''name'' else ''chapterTitles''))
      | Some currentPart \<Rightarrow>
          Inr \<lparr> promptPartName = Part.name currentPart,
                promptChapters = partChapters analysis currentPart,
                promptChapterCount = length (partChapters analysis currentPart) \<rparr>)"

text \<open>
  \<^verbatim>\<open>{...m, id: `part-${partIndex}-q-${i}`, partName: currentPart.name}\<close>: the
  fields of \<open>m\<close>, extended by the two stamped ones.
\<close>

definition stamp :: "nat \<Rightarrow> string \<Rightarrow> nat \<Rightarrow> RawMCQ \<Rightarrow> MCQ" where
  "stamp partIndex pname i m = RawMCQ.extend m (MCQ.fields (mkId partIndex i) pname)"

definition generatePartMCQs ::
  "TextbookAnalysis \<Rightarrow> nat \<Rightarrow> MCQ list \<Rightarrow> RawMCQ list reply \<Rightarrow> js_error + MCQ list" where
  "generatePartMCQs analysis partIndex existingMCQs r =
     (case partPrompt analysis partIndex of
        Inl e \<Rightarrow> Inl e
      | Inr prompt \<Rightarrow>
          (case r of
             Rejected m \<Rightarrow> Inl (CapabilityError m)
           | Malformed m \<Rightarrow> Inl (SyntaxError m)
           | Parsed rawMcqs \<Rightarrow>
               Inr (map (\<lambda>(i, m). stamp partIndex (promptPartName prompt) i m)
                      (enumerate 0 rawMcqs))))"

section \<open>The application state and its two operations (App component)\<close>

record AppState =
  status :: AppStatus
  files :: "FileData list"
  analysis :: "TextbookAnalysis option"
  mcqs :: "MCQ list"
  currentPartIndex :: nat
  error :: "string option"
  isGenerating :: bool

definition initialState :: AppState where
  "initialState =
     \<lparr> status = IDLE, files = [], analysis = None, mcqs = [], currentPartIndex = 0,
       error = None, isGenerating = False \<rparr>"

text \<open>\<^verbatim>\<open>setFiles(prev => [...prev, ...results])\<close>\<close>

definition filesLoaded :: "FileData list \<Rightarrow> AppState \<Rightarrow> AppState" where
  "filesLoaded results s = s\<lparr>files := files s @ results\<rparr>"

text \<open>\<^verbatim>\<open>a || b\<close> on strings.\<close>

definition orElse :: "string \<Rightarrow> string \<Rightarrow> string" where
  "orElse a b = (if a = [] then b else a)"

text \<open>
  An operation is an \<^verbatim>\<open>async\<close> function with one \<^verbatim>\<open>await\<close>. Its first half runs
  when it is invoked: the guard, the state updates before the \<^verbatim>\<open>try\<close>, and the
  call, which captures the values of the render it was invoked in. Its second half runs
  when the call settles, on the state of that moment.
\<close>

definition startAnalysis_begin :: "AppState \<Rightarrow> AppState \<times> FileData list option" where
  "startAnalysis_begin s =
     (if files s = [] then (s, None)
      else (s\<lparr>status := ANALYZING, error := None\<rparr>, Some (files s)))"

definition startAnalysis_settle :: "FileData list \<Rightarrow> TextbookAnalysis reply \<Rightarrow> AppState \<Rightarrow> AppState" where
  "startAnalysis_settle fs r s =
     (case analyzeTextbook fs r of
        Inr result \<Rightarrow> s\<lparr>analysis := Some result, status := READY_TO_GENERATE\<rparr>
      | Inl err \<Rightarrow>
          s\<lparr>error := Some (orElse (message err) ''Failed to analyze textbook.''),
            status := IDLE\<rparr>)"

definition startAnalysis :: "AppState \<Rightarrow> TextbookAnalysis reply \<Rightarrow> AppState" where
  "startAnalysis s r =
     (case startAnalysis_begin s of
        (s', None) \<Rightarrow> s'
      | (s', Some fs) \<Rightarrow> startAnalysis_settle fs r s')"

type_synonym generation_call = "TextbookAnalysis \<times> nat \<times> MCQ list"

definition generateNextPart_begin :: "AppState \<Rightarrow> AppState \<times> generation_call option" where
  "generateNextPart_begin s =
     (case analysis s of
        None \<Rightarrow> (s, None)
      | Some a \<Rightarrow>
          if currentPartIndex s \<ge> 4 then (s, None)
          else (s\<lparr>isGenerating := True, status := GENERATING, error := None\<rparr>,
                Some (a, currentPartIndex s, mcqs s)))"

definition generateNextPart_settle :: "generation_call \<Rightarrow> RawMCQ list reply \<Rightarrow> AppState \<Rightarrow> AppState" where
  "generateNextPart_settle c r s =
     (case c of (a, k, existing) \<Rightarrow>
        (case generatePartMCQs a k existing r of
           Inr newMcqs \<Rightarrow>
             (let nextIndex = k + 1 in
              s\<lparr>mcqs := mcqs s @ newMcqs,
                currentPartIndex := nextIndex,
                status := (if nextIndex \<ge> 4 then COMPLETED else READY_TO_GENERATE),
                isGenerating := False\<rparr>)
         | Inl err \<Rightarrow>
             s\<lparr>error := Some (orElse (message err)
                                (''Failed to generate Part '' @ showNat (k + 1) @ ''.'')),
               status := READY_TO_GENERATE,
               isGenerating := False\<rparr>))"

definition generateNextPart :: "AppState \<Rightarrow> RawMCQ list reply \<Rightarrow> AppState" where
  "generateNextPart s r =
     (case generateNextPart_begin s of
        (s', None) \<Rightarrow> s'
      | (s', Some c) \<Rightarrow> generateNextPart_settle c r s')"

section \<open>CSV export (App component)\<close>

definition headers :: "string list" where
  "headers = [''Part'', ''Chapter'', ''Question'', ''Option A'', ''Option B'', ''Option C'',
              ''Option D'', ''Correct Answer'']"

fun answerText :: "Answer \<Rightarrow> string" where
  "answerText Answer_A = ''A''"
| "answerText Answer_B = ''B''"
| "answerText Answer_C = ''C''"
| "answerText Answer_D = ''D''"

definition quoted :: "string \<Rightarrow> string" where
  "quoted s = [dquote] @ doubleQuotes s @ [dquote]"

definition csvRow :: "MCQ \<Rightarrow> string list" where
  "csvRow q =
     [partName q,
      chapterTitle q,
      quoted (question q),
      quoted (A (options q)),
      quoted (B (options q)),
      quoted (C (options q)),
      quoted (D (options q)),
      answerText (correctAnswer q)]"

definition convertToCSV :: "MCQ list \<Rightarrow> string" where
  "convertToCSV questions =
     join [CHR 0x0A] (join '','' headers # map (\<lambda>r. join '','' r) (map csvRow questions))"

text \<open>\<^verbatim>\<open>mcqs.filter((_, i) => Math.floor(i / 100) === index)\<close>, or all of them.\<close>

definition questionsToExport :: "nat option \<Rightarrow> MCQ list \<Rightarrow> MCQ list" where
  "questionsToExport index qs =
     (case index of
        None \<Rightarrow> qs
      | Some k \<Rightarrow> map snd (filter (\<lambda>(i, q). i div 100 = k) (enumerate 0 qs)))"

text \<open>The file \<^verbatim>\<open>downloadCSV\<close> offers: its name and content, or nothing.\<close>

definition downloadCSV :: "nat option \<Rightarrow> AppState \<Rightarrow> (string \<times> string) option" where
  "downloadCSV index s =
     (let questions = questionsToExport index (mcqs s) in
      if questions = [] then None
      else Some (case index of
                   None \<Rightarrow> ''MathGenius_All_Parts.csv''
                 | Some k \<Rightarrow> ''MathGenius_Part_'' @ showNat (k + 1) @ ''.csv'',
                 convertToCSV questions))"

section \<open>A session: the buttons, the pending calls, the events\<close>

text \<open>
  The analyze button is rendered while \<^verbatim>\<open>status === IDLE\<close> and a file is present.
  The generate button is rendered in the dashboard (\<^verbatim>\<open>status\<close> neither
  \<^verbatim>\<open>IDLE\<close> nor \<^verbatim>\<open>ANALYZING\<close>) unless \<^verbatim>\<open>status === COMPLETED\<close>, and is
  \<^verbatim>\<open>disabled={isGenerating}\<close>.
\<close>

definition analyzeButtonShown :: "AppState \<Rightarrow> bool" where
  "analyzeButtonShown s = (status s = IDLE \<and> files s \<noteq> [])"

definition generateButtonEnabled :: "AppState \<Rightarrow> bool" where
  "generateButtonEnabled s =
     (status s \<noteq> IDLE \<and> status s \<noteq> ANALYZING \<and> status s \<noteq> COMPLETED \<and> \<not> isGenerating s)"

datatype call = AnalysisCall "FileData list" | GenerationCall generation_call

datatype event =
    FilesLoaded "FileData list"
  | ClickAnalyze
  | ClickGenerate
  | AnalysisSettled nat "TextbookAnalysis reply"
  | GenerationSettled nat "RawMCQ list reply"

record Session =
  ui :: AppState
  pending :: "call list"

definition initialSession :: Session where
  "initialSession = \<lparr> ui = initialState, pending = [] \<rparr>"

definition remove_nth :: "nat \<Rightarrow> 'a list \<Rightarrow> 'a list" where
  "remove_nth i xs = take i xs @ drop (Suc i) xs"

text \<open>
  One event of a session. A click on a button that is not there does nothing; a call
  settles once, whichever of the pending ones it is; files arrive at any time.
\<close>

fun dispatch :: "event \<Rightarrow> Session \<Rightarrow> Session" where
  "dispatch (FilesLoaded results) \<sigma> = \<sigma>\<lparr>ui := filesLoaded results (ui \<sigma>)\<rparr>"
| "dispatch ClickAnalyze \<sigma> =
     (if analyzeButtonShown (ui \<sigma>) then
        (case startAnalysis_begin (ui \<sigma>) of
           (s', None) \<Rightarrow> \<sigma>\<lparr>ui := s'\<rparr>
         | (s', Some fs) \<Rightarrow> \<lparr> ui = s', pending = pending \<sigma> @ [AnalysisCall fs] \<rparr>)
      else \<sigma>)"
| "dispatch ClickGenerate \<sigma> =
     (if generateButtonEnabled (ui \<sigma>) then
        (case generateNextPart_begin (ui \<sigma>) of
           (s', None) \<Rightarrow> \<sigma>\<lparr>ui := s'\<rparr>
         | (s', Some c) \<Rightarrow> \<lparr> ui = s', pending = pending \<sigma> @ [GenerationCall c] \<rparr>)
      else \<sigma>)"
| "dispatch (AnalysisSettled n r) \<sigma> =
     (case at (pending \<sigma>) n of
        Some (AnalysisCall fs) \<Rightarrow>
          \<lparr> ui = startAnalysis_settle fs r (ui \<sigma>), pending = remove_nth n (pending \<sigma>) \<rparr>
      | _ \<Rightarrow> \<sigma>)"
| "dispatch (GenerationSettled n r) \<sigma> =
     (case at (pending \<sigma>) n of
        Some (GenerationCall c) \<Rightarrow>
          \<lparr> ui = generateNextPart_settle c r (ui \<sigma>), pending = remove_nth n (pending \<sigma>) \<rparr>
      | _ \<Rightarrow> \<sigma>)"

definition run :: "event list \<Rightarrow> Session" where
  "run evs = foldl (\<lambda>\<sigma> e. dispatch e \<sigma>) initialSession evs"

section \<open>Notions used to state the properties\<close>

text \<open>What follows the first comma of a string, and its part up to the next comma.\<close>

definition afterFirstComma :: "string \<Rightarrow> string" where
  "afterFirstComma s = tl (dropWhile (\<lambda>x. x \<noteq> CHR '','') s)"

definition secondSegment :: "string \<Rightarrow> string" where
  "secondSegment s = takeWhile (\<lambda>x. x \<noteq> CHR '','') (afterFirstComma s)"

text \<open>The ids of one batch of \<open>n\<close> records of part \<open>k\<close>, and of a whole session.\<close>

definition batchIds :: "nat \<Rightarrow> nat \<Rightarrow> string list" where
  "batchIds k n = map (mkId k) [0..<n]"

definition sessionIds :: "nat list \<Rightarrow> string list" where
  "sessionIds ns = concat (map (\<lambda>(k, n). batchIds k n) (enumerate 0 ns))"

text \<open>Reading a decimal text back, to show that \<open>showNat\<close> loses nothing.\<close>

definition digitVal :: "char \<Rightarrow> nat" where
  "digitVal c = of_char c - 48"

definition readNat :: "string \<Rightarrow> nat" where
  "readNat s = foldl (\<lambda>acc c. 10 * acc + digitVal c) 0 s"

text \<open>
  A run of calls of \<open>generateNextPart\<close>, one settled before the next is made, and the
  batches that the successful ones of these calls returned.
\<close>

definition generateAll :: "AppState \<Rightarrow> RawMCQ list reply list \<Rightarrow> AppState" where
  "generateAll s rs = foldl generateNextPart s rs"

fun acceptedBatches :: "AppState \<Rightarrow> RawMCQ list reply list \<Rightarrow> MCQ list list" where
  "acceptedBatches s [] = []"
| "acceptedBatches s (r # rs) =
     (case generateNextPart_begin s of
        (s', None) \<Rightarrow> []
      | (s', Some (a, k, existing)) \<Rightarrow>
          (case generatePartMCQs a k existing r of Inl e \<Rightarrow> [] | Inr newMcqs \<Rightarrow> [newMcqs]))
     @ acceptedBatches (generateNextPart s r) rs"

text \<open>
  What holds of every session: the pending calls are at most one, the status shows which
  it is, a pending generation call is for the current part index, and the ids of the
  accumulated questions are those of one batch for each part index below the current one.
\<close>

fun pending_ok :: "call list \<Rightarrow> AppState \<Rightarrow> bool" where
  "pending_ok [] s =
     (\<not> isGenerating s \<and> status s \<noteq> ANALYZING \<and> status s \<noteq> GENERATING)"
| "pending_ok [AnalysisCall fs] s = (status s = ANALYZING \<and> \<not> isGenerating s)"
| "pending_ok [GenerationCall c] s =
     (status s = GENERATING \<and> isGenerating s \<and> fst (snd c) = currentPartIndex s)"
| "pending_ok (c # d # cs) s = False"

definition ids_ok :: "AppState \<Rightarrow> bool" where
  "ids_ok s = (\<exists>ns. length ns = currentPartIndex s \<and> map id' (mcqs s) = sessionIds ns)"

definition session_inv :: "Session \<Rightarrow> bool" where
  "session_inv \<sigma> = (pending_ok (pending \<sigma>) (ui \<sigma>) \<and> ids_ok (ui \<sigma>))"

text \<open>
  The invariants the data model asks of an analysis: exactly four parts, and every chapter
  title of a part is the title of a chapter of the analysis.
\<close>

definition schemaInvariants :: "TextbookAnalysis \<Rightarrow> bool" where
  "schemaInvariants a =
     (length (parts a) = 4 \<and>
      list_all (\<lambda>p. list_all (\<lambda>t. t \<in> set (map title (chapters a))) (chapterTitles p)) (parts a))"

text \<open>
  A reader of CSV text, written from RFC 4180 to state what parsing an export gives back;
  it is no part of the repository. A field that starts with a double quote runs to the
  closing quote, a doubled quote inside standing for one quote; any other field runs to the
  next comma or line feed. The arguments are the mode, the field and the row read so far,
  the rows completed, and the rest of the text.
\<close>

datatype csv_mode = FieldStart | InBare | InQuoted | AfterQuote

fun readFields ::
  "csv_mode \<Rightarrow> string \<Rightarrow> string list \<Rightarrow> string list list \<Rightarrow> string \<Rightarrow> string list list" where
  "readFields m f row rows [] = rows @ [row @ [f]]"
| "readFields m f row rows (c # cs) =
     (if m = InQuoted then
        (if c = dquote then readFields AfterQuote f row rows cs
         else readFields InQuoted (f @ [c]) row rows cs)
      else if c = dquote \<and> m = AfterQuote then readFields InQuoted (f @ [c]) row rows cs
      else if c = dquote \<and> m = FieldStart then readFields InQuoted f row rows cs
      else if c = CHR '','' then readFields FieldStart [] (row @ [f]) rows cs
      else if c = CHR 0x0A then readFields FieldStart [] [] (rows @ [row @ [f]]) cs
      else readFields InBare (f @ [c]) row rows cs)"

definition readCSV :: "string \<Rightarrow> string list list" where
  "readCSV s = readFields FieldStart [] [] [] s"

text \<open>The fields of a question that the export is meant to carry, unescaped.\<close>

definition csvFields :: "MCQ \<Rightarrow> string list" where
  "csvFields q =
     [partName q, chapterTitle q, question q, A (options q), B (options q), C (options q),
      D (options q), answerText (correctAnswer q)]"

text \<open>A text that needs no quoting: no double quote, no comma, no line feed.\<close>

definition plain :: "string \<Rightarrow> bool" where
  "plain s = (dquote \<notin> set s \<and> CHR '','' \<notin> set s \<and> CHR 0x0A \<notin> set s)"

section \<open>Sample values\<close>

definition sampleQuestion :: RawMCQ where
  "sampleQuestion =
     \<lparr> chapterTitle = ''Limits'', question = ''What is 1 + 1?'',
       options = \<lparr> A = ''1'', B = ''2'', C = ''3'', D = ''4'' \<rparr>,
       correctAnswer = Answer_B, topic = ''Sums'', difficulty = Easy, explanation = None \<rparr>"

definition sampleAnalysis :: TextbookAnalysis where
  "sampleAnalysis =
     \<lparr> chapters = [\<lparr> title = ''Sets'', topics = [''Union''] \<rparr>,
                   \<lparr> title = ''Limits'', topics = [''Continuity''] \<rparr>,
                   \<lparr> title = ''Series'', topics = [''Convergence''] \<rparr>,
                   \<lparr> title = ''Vectors'', topics = [''Dot product''] \<rparr>],
       parts = [\<lparr> Part.name = ''Foundations'', chapterTitles = [''Sets''] \<rparr>,
                \<lparr> Part.name = ''Analysis'', chapterTitles = [''Series'', ''Limits''] \<rparr>,
                \<lparr> Part.name = ''Geometry'', chapterTitles = [''Vectors''] \<rparr>,
                \<lparr> Part.name = ''Review'', chapterTitles = [''Sets'', ''Vectors''] \<rparr>],
       totalTopics = 4, summary = ''A short book'' \<rparr>"

definition sampleFile :: FileData where
  "sampleFile =
     \<lparr> FileData.name = ''book.pdf'', type = ''application/pdf'',
       base64 = ''data:application/pdf;base64,JVBERi0='' \<rparr>"

definition sampleReady :: AppState where
  "sampleReady =
     \<lparr> status = READY_TO_GENERATE, files = [sampleFile], analysis = Some sampleAnalysis,
       mcqs = [], currentPartIndex = 0, error = None, isGenerating = False \<rparr>"

definition sampleGenerating :: AppState where
  "sampleGenerating = sampleReady\<lparr>status := GENERATING, isGenerating := True\<rparr>"

definition sampleAnalyzing :: AppState where
  "sampleAnalyzing = initialState\<lparr>files := [sampleFile], status := ANALYZING\<rparr>"

definition sampleLoaded :: AppState where
  "sampleLoaded = filesLoaded [sampleFile] initialState"

definition malformedAnalysis :: TextbookAnalysis where
  "malformedAnalysis =
     \<lparr> chapters = [\<lparr> title = ''Sets'', topics = [''Union''] \<rparr>],
       parts = [\<lparr> Part.name = ''Everything'', chapterTitles = [''Sets'', ''Groups''] \<rparr>],
       totalTopics = 1, summary = ''One part, one title without a chapter'' \<rparr>"

text \<open>A question of a part and a chapter whose names hold a comma and double quotes.\<close>

definition quotedQuestion :: MCQ where
  "quotedQuestion =
     \<lparr> chapterTitle = ''The '' @ [dquote] @ ''Chain'' @ [dquote] @ '' Rule'',
       question = ''She said '' @ [dquote] @ ''x=2'' @ [dquote],
       options = \<lparr> A = ''1'', B = ''2'', C = ''3'', D = ''4'' \<rparr>,
       correctAnswer = Answer_B, topic = ''Derivatives'', difficulty = Easy,
       explanation = None, id' = ''part-0-q-0'', partName = ''Calculus, Part 1'' \<rparr>"


section \<open>Content extraction\<close>

lemma split_nonempty: "split c s \<noteq> []"
  by (induction s) (auto split: list.splits)

lemma split_unfold:
  "split c s = takeWhile (\<lambda>x. x \<noteq> c) s #
     (case dropWhile (\<lambda>x. x \<noteq> c) s of [] \<Rightarrow> [] | y # r \<Rightarrow> split c r)"
proof (induction s)
  case Nil
  show ?case by simp
next
  case (Cons x xs)
  show ?case
  proof (cases "x = c")
    case True
    then show ?thesis by simp
  next
    case False
    then show ?thesis
      by (simp only: split.simps if_False Cons.IH list.case takeWhile.simps dropWhile.simps) simp
  qed
qed

lemma dropWhile_neq_Nil: "dropWhile (\<lambda>x. x \<noteq> c) s = [] \<longleftrightarrow> c \<notin> set s"
  by (auto simp: dropWhile_eq_Nil_conv)

lemma split_at_1:
  "at (split c s) (Suc 0) =
     (if c \<in> set s
      then Some (takeWhile (\<lambda>x. x \<noteq> c) (tl (dropWhile (\<lambda>x. x \<noteq> c) s)))
      else None)"
proof (cases "dropWhile (\<lambda>x. x \<noteq> c) s")
  case Nil
  have notin: "c \<notin> set s"
    using Nil dropWhile_neq_Nil [of c s] by simp
  have "split c s = [takeWhile (\<lambda>x. x \<noteq> c) s]"
    by (subst split_unfold) (simp only: Nil list.case)
  with notin show ?thesis by (simp add: at_def)
next
  case (Cons y r)
  have isin: "c \<in> set s"
    using Cons dropWhile_neq_Nil [of c s] by auto
  have hd_r: "split c r ! 0 = takeWhile (\<lambda>x. x \<noteq> c) r"
    by (subst split_unfold) simp
  have tl_s: "tl (dropWhile (\<lambda>x. x \<noteq> c) s) = r"
    by (simp only: Cons list.sel)
  have "split c s = takeWhile (\<lambda>x. x \<noteq> c) s # split c r"
    by (subst split_unfold) (simp only: Cons list.case)
  then have "at (split c s) (Suc 0) = Some (split c r ! 0)"
    by (simp add: at_def split_nonempty)
  with isin hd_r tl_s show ?thesis by simp
qed

text \<open>
  A data URI whose header and payload hold no comma and whose payload is not empty loses
  its header and the comma.
\<close>

lemma inlineData_data_uri:
  assumes "CHR '','' \<notin> set header" and "CHR '','' \<notin> set payload" and "payload \<noteq> []"
  shows "data (inlineData \<lparr> FileData.name = n, type = t, base64 = header @ '','' @ payload \<rparr>) = payload"
proof -
  let ?s = "header @ '','' @ payload"
  have "dropWhile (\<lambda>x. x \<noteq> CHR '','') ?s = '','' @ payload"
    using assms(1) by (induction header) auto
  then have dw: "tl (dropWhile (\<lambda>x. x \<noteq> CHR '','') ?s) = payload"
    by simp
  have tw: "takeWhile (\<lambda>x. x \<noteq> CHR '','') payload = payload"
    using assms(2) by auto
  have mem: "CHR '','' \<in> set ?s"
    by simp
  have "at (split CHR '','' ?s) (Suc 0) = Some payload"
    by (simp only: split_at_1 mem if_True dw tw)
  then show ?thesis
    using assms(3) by (simp add: inlineData_def)
qed

text \<open>
  C9. The extraction step should emit, for every uploaded file, the encoded payload alone,
  the transport prefix up to and including the separator removed. For the data URI of an
  empty file the payload after the comma is the empty string, the \<^verbatim>\<open>||\<close> takes its
  right operand, and the block carries the whole URI, header included.
\<close>

theorem inlineData_empty_payload_keeps_header:
  "inlineData \<lparr> FileData.name = ''empty.pdf'', type = ''application/pdf'',
                 base64 = ''data:application/pdf;base64,'' \<rparr> =
     \<lparr> mimeType = ''application/pdf'', data = ''data:application/pdf;base64,'' \<rparr>"
  by (simp add: inlineData_def at_def)

text \<open>
  C10, as stated: when a non-empty substring follows the first comma, exactly that
  substring is emitted. At \<^verbatim>\<open>a,b,c\<close> the substring after the first comma is
  \<^verbatim>\<open>b,c\<close>, and the block carries \<^verbatim>\<open>b\<close>.
\<close>

theorem inlineData_after_first_comma_counterexample:
  "afterFirstComma ''a,b,c'' = ''b,c'' \<and>
   data (inlineData \<lparr> FileData.name = ''f'', type = ''text/plain'', base64 = ''a,b,c'' \<rparr>) = ''b''"
  by (simp add: inlineData_def at_def afterFirstComma_def)

text \<open>
  C10, amended: the block pairs the MIME type of the file with the second segment of its
  content, that is the text between the first comma and the next comma or the end; when
  the content has no comma or that segment is empty, the block carries the whole content.
\<close>

theorem inlineData_second_segment:
  "mimeType (inlineData f) = type f \<and>
   data (inlineData f) =
     (if CHR '','' \<notin> set (base64 f) \<or> secondSegment (base64 f) = [] then base64 f
      else secondSegment (base64 f))"
  by (simp add: inlineData_def split_at_1 secondSegment_def afterFirstComma_def)

theorem inlineData_second_segment_witness:
  "CHR '','' \<in> set ''a,b,c'' \<and> secondSegment ''a,b,c'' = ''b'' \<and>
   data (inlineData \<lparr> FileData.name = ''f'', type = ''text/plain'', base64 = ''a,b,c'' \<rparr>) = ''b''"
  using inlineData_second_segment [of "\<lparr> FileData.name = ''f'', type = ''text/plain'', base64 = ''a,b,c'' \<rparr>"]
  by (simp add: secondSegment_def afterFirstComma_def)

section \<open>The id of a question encodes its part and its position\<close>

lemma digitVal_digitChar: "d < 10 \<Longrightarrow> digitVal (digitChar d) = d"
  by (simp add: digitVal_def digitChar_def)

lemma digitChar_not_dash: "d < 10 \<Longrightarrow> digitChar d \<noteq> CHR ''-''"
proof
  assume d: "d < 10" and eq: "digitChar d = CHR ''-''"
  from eq have "of_char (digitChar d) = (of_char (CHR ''-'') :: nat)" by simp
  with d show False by (simp add: digitChar_def)
qed

lemma readNat_showNat: "readNat (showNat n) = n"
proof (induction n rule: showNat.induct)
  case (1 n)
  show ?case
  proof (cases "n < 10")
    case True
    then show ?thesis
      by (subst showNat.simps) (simp add: readNat_def digitVal_digitChar)
  next
    case False
    have "readNat (showNat n) = 10 * readNat (showNat (n div 10)) + digitVal (digitChar (n mod 10))"
      using False by (subst showNat.simps) (simp add: readNat_def)
    also have "\<dots> = 10 * (n div 10) + n mod 10"
      using False "1.IH" by (simp add: digitVal_digitChar)
    finally show ?thesis by simp
  qed
qed

lemma showNat_inj: "showNat m = showNat n \<Longrightarrow> m = n"
proof -
  assume "showNat m = showNat n"
  then have "readNat (showNat m) = readNat (showNat n)" by simp
  then show "m = n" by (simp only: readNat_showNat)
qed

lemma showNat_no_dash: "CHR ''-'' \<notin> set (showNat n)"
proof (induction n rule: showNat.induct)
  case (1 n)
  show ?case
  proof (cases "n < 10")
    case True
    then show ?thesis
      using digitChar_not_dash [of n] by (subst showNat.simps) auto
  next
    case False
    then show ?thesis
      using "1.IH" digitChar_not_dash [of "n mod 10"] by (subst showNat.simps) auto
  qed
qed

lemma append_sep_inj:
  assumes "xs @ c # ys = xs' @ c # ys'" and "c \<notin> set xs" and "c \<notin> set xs'"
  shows "xs = xs' \<and> ys = ys'"
  using assms
proof (induction xs arbitrary: xs')
  case Nil
  then show ?case by (cases xs') auto
next
  case (Cons x xs)
  then show ?case by (cases xs') auto
qed

lemma mkId_inj: "mkId k i = mkId k' i' \<Longrightarrow> k = k' \<and> i = i'"
proof -
  assume "mkId k i = mkId k' i'"
  then have "showNat k @ CHR ''-'' # (''q-'' @ showNat i) = showNat k' @ CHR ''-'' # (''q-'' @ showNat i')"
    by (simp add: mkId_def)
  then have "showNat k = showNat k' \<and> ''q-'' @ showNat i = ''q-'' @ showNat i'"
    by (rule append_sep_inj) (rule showNat_no_dash)+
  then show ?thesis by (auto dest: showNat_inj)
qed

section \<open>Part generation\<close>

lemma count_list_filter:
  "count_list (filter P xs) x = (if P x then count_list xs x else 0)"
  by (induction xs) auto

lemma at_Some: "i < length xs \<Longrightarrow> at xs i = Some (xs ! i)"
  by (simp add: at_def)

lemma stamp_truncate: "RawMCQ.truncate (stamp k p i m) = m"
  by (simp add: stamp_def RawMCQ.defs MCQ.defs)

lemma stamp_id: "id' (stamp k p i m) = mkId k i"
  by (simp add: stamp_def RawMCQ.defs MCQ.defs)

lemma stamp_partName: "partName (stamp k p i m) = p"
  by (simp add: stamp_def RawMCQ.defs MCQ.defs)

text \<open>
  C8. For a part index that names a part of the analysis, the chapters put into the
  instruction are the chapters of the analysis whose title occurs among the chapter titles
  of that part, in the order of \<^verbatim>\<open>analysis.chapters\<close>: the filtered list, which is a
  subsequence of the chapters that keeps every occurrence of a chapter with such a title
  and nothing else.
\<close>

theorem partPrompt_chapters:
  assumes "partIndex < length (parts a)"
  shows "\<exists>p. partPrompt a partIndex = Inr p \<and>
           promptChapters p =
             filter (\<lambda>ch. title ch \<in> set (chapterTitles (parts a ! partIndex))) (chapters a) \<and>
           subseq (promptChapters p) (chapters a) \<and>
           (\<forall>ch. count_list (promptChapters p) ch =
                   (if title ch \<in> set (chapterTitles (parts a ! partIndex))
                    then count_list (chapters a) ch else 0))"
  using assms
  by (simp add: partPrompt_def at_Some partChapters_def count_list_filter)

theorem partPrompt_chapters_witness:
  "1 < length (parts sampleAnalysis) \<and>
   (\<exists>p. partPrompt sampleAnalysis 1 = Inr p \<and>
      promptChapters p = [\<lparr> title = ''Limits'', topics = [''Continuity''] \<rparr>,
                          \<lparr> title = ''Series'', topics = [''Convergence''] \<rparr>])"
proof -
  have len: "1 < length (parts sampleAnalysis)"
    by (simp add: sampleAnalysis_def)
  from partPrompt_chapters [OF len] obtain p where
    p: "partPrompt sampleAnalysis 1 = Inr p"
    and chs: "promptChapters p =
      filter (\<lambda>ch. title ch \<in> set (chapterTitles (parts sampleAnalysis ! 1)))
        (chapters sampleAnalysis)"
    by blast
  from chs have "promptChapters p = [\<lparr> title = ''Limits'', topics = [''Continuity''] \<rparr>,
                                     \<lparr> title = ''Series'', topics = [''Convergence''] \<rparr>]"
    by (simp add: sampleAnalysis_def)
  with p len show ?thesis by blast
qed

text \<open>
  C7. For a part index that names a part of the analysis and any parsed list of records,
  of any length and with any content, \<open>generatePartMCQs\<close> succeeds with one record per
  parsed record, in the same order. The record at position \<open>i\<close> is the parsed record at
  position \<open>i\<close> (what is left of it when the two stamped fields are dropped) with
  \<^verbatim>\<open>id\<close> the text \<open>mkId partIndex i\<close>, from which the part index and the position
  can be read back, and \<^verbatim>\<open>partName\<close> the name of the part. The result is a function
  of the analysis, the part index and the parsed list; the questions generated before
  play no role.
\<close>

theorem generatePartMCQs_stamps:
  assumes "partIndex < length (parts a)"
  shows "\<exists>out. generatePartMCQs a partIndex existing (Parsed rawMcqs) = Inr out \<and>
           length out = length rawMcqs \<and>
           (\<forall>i < length rawMcqs.
              RawMCQ.truncate (out ! i) = rawMcqs ! i \<and>
              id' (out ! i) = mkId partIndex i \<and>
              (\<forall>k j. mkId k j = mkId partIndex i \<longrightarrow> k = partIndex \<and> j = i) \<and>
              partName (out ! i) = Part.name (parts a ! partIndex)) \<and>
           generatePartMCQs a partIndex existing' (Parsed rawMcqs) = Inr out"
  using assms
  by (auto simp add: generatePartMCQs_def partPrompt_def at_Some nth_enumerate_eq
      stamp_truncate stamp_id stamp_partName dest: mkId_inj)

theorem generatePartMCQs_stamps_witness:
  "1 < length (parts sampleAnalysis) \<and>
   (\<exists>out. generatePartMCQs sampleAnalysis 1 [] (Parsed [sampleQuestion, sampleQuestion]) = Inr out \<and>
      length out = 2 \<and>
      RawMCQ.truncate (out ! 1) = sampleQuestion \<and>
      id' (out ! 1) = ''part-1-q-1'' \<and>
      partName (out ! 1) = ''Analysis'')"
proof -
  have len: "1 < length (parts sampleAnalysis)"
    by (simp add: sampleAnalysis_def)
  have id11: "mkId 1 1 = ''part-1-q-1''"
    by code_simp
  from generatePartMCQs_stamps [OF len, of "[]" "[sampleQuestion, sampleQuestion]" "[]"]
  obtain out where
    out: "generatePartMCQs sampleAnalysis 1 [] (Parsed [sampleQuestion, sampleQuestion]) = Inr out"
    and n: "length out = 2"
    and each: "\<forall>i < 2. RawMCQ.truncate (out ! i) = [sampleQuestion, sampleQuestion] ! i \<and>
                 id' (out ! i) = mkId 1 i \<and>
                 partName (out ! i) = Part.name (parts sampleAnalysis ! 1)"
    by auto
  from each have "RawMCQ.truncate (out ! 1) = sampleQuestion \<and> id' (out ! 1) = mkId 1 1 \<and>
      partName (out ! 1) = ''Analysis''"
    by (simp add: sampleAnalysis_def)
  with out n len id11 show ?thesis by auto
qed

section \<open>The analysis stage\<close>

lemma startAnalysis_Inl:
  assumes "files s \<noteq> []" and "analyzeTextbook (files s) r = Inl e"
  shows "startAnalysis s r =
     s\<lparr>error := Some (orElse (message e) ''Failed to analyze textbook.''), status := IDLE\<rparr>"
  using assms by (simp add: startAnalysis_def startAnalysis_begin_def startAnalysis_settle_def)

lemma startAnalysis_Inr:
  assumes "files s \<noteq> []" and "analyzeTextbook (files s) r = Inr a"
  shows "startAnalysis s r = s\<lparr>error := None, analysis := Some a, status := READY_TO_GENERATE\<rparr>"
  using assms by (simp add: startAnalysis_def startAnalysis_begin_def startAnalysis_settle_def)

text \<open>
  C2, as stated: a \<open>TextbookAnalysis\<close> is returned only when it has exactly four parts
  and every chapter title of a part names a chapter. The parsed value below has one part,
  which names a chapter that is not there; \<open>analyzeTextbook\<close> returns it, and
  \<open>startAnalysis\<close> stores it and moves to \<open>READY_TO_GENERATE\<close>.
\<close>

theorem analyzeTextbook_unvalidated_counterexample:
  "\<not> schemaInvariants malformedAnalysis \<and>
   analyzeTextbook [sampleFile] (Parsed malformedAnalysis) = Inr malformedAnalysis \<and>
   status (startAnalysis sampleLoaded (Parsed malformedAnalysis)) = READY_TO_GENERATE \<and>
   analysis (startAnalysis sampleLoaded (Parsed malformedAnalysis)) = Some malformedAnalysis"
  by (simp add: schemaInvariants_def malformedAnalysis_def analyzeTextbook_def startAnalysis_def
      startAnalysis_begin_def startAnalysis_settle_def sampleLoaded_def filesLoaded_def
      initialState_def)

text \<open>
  C2, amended: \<open>analyzeTextbook\<close> fails exactly when the capability call is rejected or
  \<^verbatim>\<open>JSON.parse\<close> refuses the response text, with the error thrown there; a parsed
  value is returned as it is, whatever its parts and chapter titles. When it fails,
  \<open>startAnalysis\<close> records the message, goes back to \<open>IDLE\<close> and leaves the analysis, the
  questions and the part index as they were; when it returns, \<open>startAnalysis\<close> stores
  the value and moves to \<open>READY_TO_GENERATE\<close>.
\<close>

theorem analyzeTextbook_returns_parsed:
  "analyzeTextbook fs (Rejected m) = Inl (CapabilityError m) \<and>
   analyzeTextbook fs (Malformed m) = Inl (SyntaxError m) \<and>
   analyzeTextbook fs (Parsed a) = Inr a \<and>
   ((\<exists>e. analyzeTextbook fs r = Inl e) \<longleftrightarrow> (\<exists>m. r = Rejected m \<or> r = Malformed m)) \<and>
   (files s \<noteq> [] \<longrightarrow>
      (\<forall>e. analyzeTextbook (files s) r = Inl e \<longrightarrow>
         status (startAnalysis s r) = IDLE \<and>
         error (startAnalysis s r) = Some (orElse (message e) ''Failed to analyze textbook.'') \<and>
         analysis (startAnalysis s r) = analysis s \<and>
         mcqs (startAnalysis s r) = mcqs s \<and>
         currentPartIndex (startAnalysis s r) = currentPartIndex s) \<and>
      status (startAnalysis s (Parsed a)) = READY_TO_GENERATE \<and>
      analysis (startAnalysis s (Parsed a)) = Some a)"
proof -
  have "(\<exists>e. analyzeTextbook fs r = Inl e) \<longleftrightarrow> (\<exists>m. r = Rejected m \<or> r = Malformed m)"
    by (cases r) (simp_all add: analyzeTextbook_def)
  moreover have "analyzeTextbook (files s) (Parsed a) = Inr a"
    by (simp add: analyzeTextbook_def)
  ultimately show ?thesis
    by (auto simp: startAnalysis_Inl startAnalysis_Inr) (simp_all add: analyzeTextbook_def)
qed

theorem analyzeTextbook_returns_parsed_witness:
  "files sampleLoaded \<noteq> [] \<and>
   analyzeTextbook (files sampleLoaded) (Malformed ''Unexpected end of JSON input'') =
     Inl (SyntaxError ''Unexpected end of JSON input'') \<and>
   status (startAnalysis sampleLoaded (Malformed ''Unexpected end of JSON input'')) = IDLE \<and>
   error (startAnalysis sampleLoaded (Malformed ''Unexpected end of JSON input'')) =
     Some ''Unexpected end of JSON input'' \<and>
   status (startAnalysis sampleLoaded (Parsed sampleAnalysis)) = READY_TO_GENERATE \<and>
   analysis (startAnalysis sampleLoaded (Parsed sampleAnalysis)) = Some sampleAnalysis"
proof -
  have f: "files sampleLoaded \<noteq> []"
    by (simp add: sampleLoaded_def filesLoaded_def)
  have e: "analyzeTextbook (files sampleLoaded) (Malformed ''Unexpected end of JSON input'') =
     Inl (SyntaxError ''Unexpected end of JSON input'')"
    by (simp add: analyzeTextbook_def)
  from analyzeTextbook_returns_parsed
    [where s = sampleLoaded and r = "Malformed ''Unexpected end of JSON input''"
       and a = sampleAnalysis] f e
  show ?thesis
    by (simp add: orElse_def)
qed

section \<open>One call of generateNextPart\<close>

lemma generateNextPart_guarded:
  "analysis s = None \<or> 4 \<le> currentPartIndex s \<Longrightarrow> generateNextPart s r = s"
  by (auto simp: generateNextPart_def generateNextPart_begin_def split: option.splits)

lemma generateNextPart_Inr:
  assumes "analysis s = Some a" and "currentPartIndex s < 4"
    and "generatePartMCQs a (currentPartIndex s) (mcqs s) r = Inr newMcqs"
  shows "generateNextPart s r =
     s\<lparr>mcqs := mcqs s @ newMcqs,
       currentPartIndex := currentPartIndex s + 1,
       status := (if currentPartIndex s + 1 \<ge> 4 then COMPLETED else READY_TO_GENERATE),
       isGenerating := False,
       error := None\<rparr>"
  using assms
  by (simp add: generateNextPart_def generateNextPart_begin_def generateNextPart_settle_def)

lemma generateNextPart_Inl:
  assumes "analysis s = Some a" and "currentPartIndex s < 4"
    and "generatePartMCQs a (currentPartIndex s) (mcqs s) r = Inl e"
  shows "generateNextPart s r =
     s\<lparr>error := Some (orElse (message e)
                        (''Failed to generate Part '' @ showNat (currentPartIndex s + 1) @ ''.'')),
       status := READY_TO_GENERATE,
       isGenerating := False\<rparr>"
  using assms
  by (simp add: generateNextPart_def generateNextPart_begin_def generateNextPart_settle_def)

lemma generateAll_mcqs:
  "mcqs (generateAll s rs) = mcqs s @ concat (acceptedBatches s rs) \<and>
   currentPartIndex (generateAll s rs) = currentPartIndex s + length (acceptedBatches s rs)"
proof (induction rs arbitrary: s)
  case Nil
  show ?case by (simp add: generateAll_def)
next
  case (Cons r rs)
  have step: "mcqs (generateNextPart s r) =
        mcqs s @ concat (case generateNextPart_begin s of
            (s', None) \<Rightarrow> []
          | (s', Some (a, k, existing)) \<Rightarrow>
              (case generatePartMCQs a k existing r of Inl e \<Rightarrow> [] | Inr newMcqs \<Rightarrow> [newMcqs])) \<and>
      currentPartIndex (generateNextPart s r) =
        currentPartIndex s + length (case generateNextPart_begin s of
            (s', None) \<Rightarrow> []
          | (s', Some (a, k, existing)) \<Rightarrow>
              (case generatePartMCQs a k existing r of Inl e \<Rightarrow> [] | Inr newMcqs \<Rightarrow> [newMcqs]))"
    by (simp add: generateNextPart_def generateNextPart_begin_def generateNextPart_settle_def
        split: option.splits sum.splits)
  have "generateAll s (r # rs) = generateAll (generateNextPart s r) rs"
    by (simp add: generateAll_def)
  with Cons.IH [of "generateNextPart s r"] step show ?case
    by simp
qed

text \<open>
  C5. When the guard of \<open>generateNextPart\<close> passes and the part generation stage
  returns a batch, the batch is appended as it is to the accumulated questions (so the
  count grows by the size of the batch, which is the number of parsed records), the part
  index grows by one, and the status is \<open>COMPLETED\<close> when the new index is 4 and
  \<open>READY_TO_GENERATE\<close> otherwise. Over any run of calls, each settled before the next,
  the accumulated questions are those of the start followed by the batches of the
  successful calls in order, their number is the sum of the sizes of these batches, and
  the part index has grown by the number of these batches.
\<close>

theorem generateNextPart_success:
  assumes "analysis s = Some a" and "currentPartIndex s < 4"
    and "generatePartMCQs a (currentPartIndex s) (mcqs s) r = Inr newMcqs"
  shows "mcqs (generateNextPart s r) = mcqs s @ newMcqs \<and>
         length (mcqs (generateNextPart s r)) = length (mcqs s) + length newMcqs \<and>
         (\<forall>rawMcqs. r = Parsed rawMcqs \<longrightarrow> length newMcqs = length rawMcqs) \<and>
         currentPartIndex (generateNextPart s r) = currentPartIndex s + 1 \<and>
         status (generateNextPart s r) =
           (if currentPartIndex s + 1 = 4 then COMPLETED else READY_TO_GENERATE) \<and>
         mcqs (generateAll t rs) = mcqs t @ concat (acceptedBatches t rs) \<and>
         length (mcqs (generateAll t rs)) =
           length (mcqs t) + sum_list (map length (acceptedBatches t rs)) \<and>
         currentPartIndex (generateAll t rs) = currentPartIndex t + length (acceptedBatches t rs)"
proof -
  have len: "\<forall>rawMcqs. r = Parsed rawMcqs \<longrightarrow> length newMcqs = length rawMcqs"
    using assms(3)
    by (auto simp: generatePartMCQs_def split: sum.splits)
  have "length (mcqs (generateAll t rs)) =
      length (mcqs t) + sum_list (map length (acceptedBatches t rs))"
    by (simp add: generateAll_mcqs length_concat)
  with len assms show ?thesis
    by (simp add: generateNextPart_Inr [OF assms] generateAll_mcqs)
qed

theorem generateNextPart_success_witness:
  "analysis sampleReady = Some sampleAnalysis \<and> currentPartIndex sampleReady < 4 \<and>
   generatePartMCQs sampleAnalysis 0 [] (Parsed [sampleQuestion, sampleQuestion]) =
     Inr [stamp 0 ''Foundations'' 0 sampleQuestion, stamp 0 ''Foundations'' 1 sampleQuestion] \<and>
   length (mcqs (generateNextPart sampleReady (Parsed [sampleQuestion, sampleQuestion]))) = 2 \<and>
   currentPartIndex (generateNextPart sampleReady (Parsed [sampleQuestion, sampleQuestion])) = 1 \<and>
   status (generateNextPart sampleReady (Parsed [sampleQuestion, sampleQuestion])) = READY_TO_GENERATE"
proof -
  have a: "analysis sampleReady = Some sampleAnalysis"
    and k: "currentPartIndex sampleReady < 4"
    by (simp_all add: sampleReady_def)
  have g: "generatePartMCQs sampleAnalysis (currentPartIndex sampleReady) (mcqs sampleReady)
             (Parsed [sampleQuestion, sampleQuestion]) =
           Inr [stamp 0 ''Foundations'' 0 sampleQuestion, stamp 0 ''Foundations'' 1 sampleQuestion]"
    by (simp add: sampleReady_def generatePartMCQs_def partPrompt_def at_def sampleAnalysis_def
        enumerate_eq_zip upt_rec)
  from generateNextPart_success [OF a k g] a k g show ?thesis
    by (simp add: sampleReady_def)
qed

text \<open>
  C4. When the guard of \<open>generateNextPart\<close> passes and the part generation stage throws,
  the status is \<open>READY_TO_GENERATE\<close>, the message of the error (or the default text when
  it is empty) is recorded, and the part index, the analysis, the accumulated questions
  and the files are what they were. The next call is made for the same part index, and
  the failed call leaves no trace in it: a call after the failed one ends in the state
  the same call would have ended in without the failed one.
\<close>

theorem generateNextPart_failure:
  assumes "analysis s = Some a" and "currentPartIndex s < 4"
    and "generatePartMCQs a (currentPartIndex s) (mcqs s) r = Inl e"
  shows "status (generateNextPart s r) = READY_TO_GENERATE \<and>
         error (generateNextPart s r) =
           Some (orElse (message e)
                   (''Failed to generate Part '' @ showNat (currentPartIndex s + 1) @ ''.'')) \<and>
         currentPartIndex (generateNextPart s r) = currentPartIndex s \<and>
         analysis (generateNextPart s r) = analysis s \<and>
         mcqs (generateNextPart s r) = mcqs s \<and>
         files (generateNextPart s r) = files s \<and>
         snd (generateNextPart_begin (generateNextPart s r)) = Some (a, currentPartIndex s, mcqs s) \<and>
         generateNextPart (generateNextPart s r) r' = generateNextPart s r'"
proof -
  let ?s1 = "generateNextPart s r"
  have s1: "?s1 = s\<lparr>error := Some (orElse (message e)
                        (''Failed to generate Part '' @ showNat (currentPartIndex s + 1) @ ''.'')),
       status := READY_TO_GENERATE, isGenerating := False\<rparr>"
    by (rule generateNextPart_Inl [OF assms])
  have retry: "generateNextPart ?s1 r' = generateNextPart s r'"
    unfolding s1 using assms(1,2)
    by (simp add: generateNextPart_def generateNextPart_begin_def generateNextPart_settle_def
        split: sum.splits)
  show ?thesis
    using assms(1,2) retry unfolding s1
    by (simp add: generateNextPart_begin_def)
qed

theorem generateNextPart_failure_witness:
  "analysis sampleReady = Some sampleAnalysis \<and> currentPartIndex sampleReady < 4 \<and>
   generatePartMCQs sampleAnalysis 0 [] (Rejected ''quota exceeded'') =
     Inl (CapabilityError ''quota exceeded'') \<and>
   status (generateNextPart sampleReady (Rejected ''quota exceeded'')) = READY_TO_GENERATE \<and>
   error (generateNextPart sampleReady (Rejected ''quota exceeded'')) = Some ''quota exceeded'' \<and>
   currentPartIndex (generateNextPart sampleReady (Rejected ''quota exceeded'')) = 0 \<and>
   mcqs (generateNextPart sampleReady (Rejected ''quota exceeded'')) = []"
proof -
  have a: "analysis sampleReady = Some sampleAnalysis"
    and k: "currentPartIndex sampleReady < 4"
    by (simp_all add: sampleReady_def)
  have g: "generatePartMCQs sampleAnalysis (currentPartIndex sampleReady) (mcqs sampleReady)
             (Rejected ''quota exceeded'') = Inl (CapabilityError ''quota exceeded'')"
    by (simp add: sampleReady_def generatePartMCQs_def partPrompt_def at_def sampleAnalysis_def)
  from generateNextPart_failure [OF a k g] a k g show ?thesis
    by (simp add: sampleReady_def orElse_def)
qed

section \<open>Sessions\<close>

lemma sessionIds_snoc: "sessionIds (ns @ [n]) = sessionIds ns @ batchIds (length ns) n"
  by (simp add: sessionIds_def enumerate_append_eq)

lemma stamped_ids:
  "map id' (map (\<lambda>(i, m). stamp k p i m) (enumerate 0 raws)) = batchIds k (length raws)"
  by (rule nth_equalityI) (simp_all add: batchIds_def nth_enumerate_eq stamp_id)

lemma generatePartMCQs_ids:
  "generatePartMCQs a k ex r = Inr new \<Longrightarrow> map id' new = batchIds k (length new)"
  using stamped_ids [of k]
  by (auto simp: generatePartMCQs_def split: sum.splits reply.splits)

lemma settle_ids_ok:
  assumes "ids_ok s" and "k = currentPartIndex s"
  shows "ids_ok (generateNextPart_settle (a, k, ex) r s)"
proof (cases "generatePartMCQs a k ex r")
  case (Inl e)
  with assms(1) show ?thesis
    by (simp add: generateNextPart_settle_def ids_ok_def)
next
  case (Inr new)
  from assms(1) obtain ns where ns: "length ns = currentPartIndex s"
    and ids: "map id' (mcqs s) = sessionIds ns"
    by (auto simp: ids_ok_def)
  have "map id' (mcqs s @ new) = sessionIds (ns @ [length new])"
    using ids ns assms(2) generatePartMCQs_ids [OF Inr] by (simp add: sessionIds_snoc)
  moreover have "length (ns @ [length new]) = k + 1"
    using ns assms(2) by simp
  ultimately have "length (ns @ [length new]) = currentPartIndex (generateNextPart_settle (a, k, ex) r s) \<and>
      map id' (mcqs (generateNextPart_settle (a, k, ex) r s)) = sessionIds (ns @ [length new])"
    using Inr by (simp add: generateNextPart_settle_def)
  then show ?thesis
    unfolding ids_ok_def by (rule exI)
qed

lemma settle_status:
  "\<not> isGenerating (generateNextPart_settle c r s) \<and>
   status (generateNextPart_settle c r s) \<noteq> ANALYZING \<and>
   status (generateNextPart_settle c r s) \<noteq> GENERATING"
  by (cases c) (simp add: generateNextPart_settle_def split: sum.splits)

lemma analysis_settle_status:
  "isGenerating (startAnalysis_settle fs r s) = isGenerating s \<and>
   status (startAnalysis_settle fs r s) \<noteq> ANALYZING \<and>
   status (startAnalysis_settle fs r s) \<noteq> GENERATING \<and>
   ids_ok (startAnalysis_settle fs r s) = ids_ok s"
  by (simp add: startAnalysis_settle_def ids_ok_def split: sum.splits)

lemma pending_cases:
  obtains "cs = []" | fs where "cs = [AnalysisCall fs]" | c where "cs = [GenerationCall c]"
  | c d ds where "cs = c # d # ds"
proof (cases cs)
  case Nil
  then show ?thesis using that by simp
next
  case (Cons c rest)
  show ?thesis
  proof (cases rest)
    case Nil
    with Cons show ?thesis using that by (cases c) simp_all
  next
    case (Cons d ds)
    with \<open>cs = c # rest\<close> show ?thesis using that by simp
  qed
qed

lemma pending_ok_cong:
  assumes "status s' = status s" and "isGenerating s' = isGenerating s"
    and "currentPartIndex s' = currentPartIndex s"
  shows "pending_ok cs s' = pending_ok cs s"
  using assms by (cases cs rule: pending_cases) simp_all

lemma filesLoaded_inv:
  assumes "session_inv \<sigma>"
  shows "session_inv (dispatch (FilesLoaded fs) \<sigma>)"
proof -
  have "pending_ok (pending \<sigma>) (filesLoaded fs (ui \<sigma>)) = pending_ok (pending \<sigma>) (ui \<sigma>)"
    by (rule pending_ok_cong) (simp_all add: filesLoaded_def)
  moreover have "ids_ok (filesLoaded fs (ui \<sigma>)) = ids_ok (ui \<sigma>)"
    by (simp add: ids_ok_def filesLoaded_def)
  ultimately show ?thesis
    using assms by (simp add: session_inv_def)
qed

lemma clickAnalyze_inv:
  assumes "session_inv \<sigma>"
  shows "session_inv (dispatch ClickAnalyze \<sigma>)"
proof (cases "pending \<sigma>" rule: pending_cases)
  case 1
  with assms show ?thesis
    by (simp add: session_inv_def analyzeButtonShown_def startAnalysis_begin_def ids_ok_def)
next
  case (2 fs)
  with assms show ?thesis
    by (simp add: session_inv_def analyzeButtonShown_def)
next
  case (3 c)
  with assms show ?thesis
    by (simp add: session_inv_def analyzeButtonShown_def)
next
  case (4 c d ds)
  with assms show ?thesis
    by (simp add: session_inv_def)
qed

lemma clickGenerate_inv:
  assumes "session_inv \<sigma>"
  shows "session_inv (dispatch ClickGenerate \<sigma>)"
proof (cases "pending \<sigma>" rule: pending_cases)
  case 1
  with assms show ?thesis
    by (simp add: session_inv_def generateButtonEnabled_def generateNextPart_begin_def ids_ok_def
        split: option.splits)
next
  case (2 fs)
  with assms show ?thesis
    by (simp add: session_inv_def generateButtonEnabled_def)
next
  case (3 c)
  with assms show ?thesis
    by (simp add: session_inv_def generateButtonEnabled_def)
next
  case (4 c d ds)
  with assms show ?thesis
    by (simp add: session_inv_def)
qed

lemma analysisSettled_inv:
  assumes "session_inv \<sigma>"
  shows "session_inv (dispatch (AnalysisSettled n r) \<sigma>)"
proof (cases "pending \<sigma>" rule: pending_cases)
  case 1
  with assms show ?thesis
    by (simp add: at_def)
next
  case (2 fs)
  with assms show ?thesis
    by (cases n) (simp_all add: session_inv_def at_def remove_nth_def analysis_settle_status)
next
  case (3 c)
  with assms show ?thesis
    by (cases n) (simp_all add: at_def)
next
  case (4 c d ds)
  with assms show ?thesis
    by (simp add: session_inv_def)
qed

lemma generationSettled_inv:
  assumes "session_inv \<sigma>"
  shows "session_inv (dispatch (GenerationSettled n r) \<sigma>)"
proof (cases "pending \<sigma>" rule: pending_cases)
  case 1
  with assms show ?thesis
    by (simp add: at_def)
next
  case (2 fs)
  with assms show ?thesis
    by (cases n) (simp_all add: at_def)
next
  case (3 c)
  obtain a k ex where c: "c = (a, k, ex)"
    by (cases c)
  from assms 3 c have k: "k = currentPartIndex (ui \<sigma>)" and ids: "ids_ok (ui \<sigma>)"
    by (simp_all add: session_inv_def)
  show ?thesis
  proof (cases n)
    case 0
    with 3 c settle_ids_ok [OF ids k, of a ex r] settle_status [of c r "ui \<sigma>"] show ?thesis
      by (simp add: session_inv_def at_def remove_nth_def)
  next
    case (Suc m)
    with 3 assms show ?thesis
      by (simp add: at_def)
  qed
next
  case (4 c d ds)
  with assms show ?thesis
    by (simp add: session_inv_def)
qed

lemma dispatch_inv: "session_inv \<sigma> \<Longrightarrow> session_inv (dispatch e \<sigma>)"
  by (cases e)
    (simp_all only: filesLoaded_inv clickAnalyze_inv clickGenerate_inv analysisSettled_inv
      generationSettled_inv)

lemma sessionIds_Nil: "sessionIds [] = []"
  by (simp add: sessionIds_def)

lemma initial_inv: "session_inv initialSession"
  by (simp add: session_inv_def initialSession_def initialState_def ids_ok_def sessionIds_Nil)

lemma run_snoc: "run (evs @ [e]) = dispatch e (run evs)"
  by (simp add: run_def)

lemma run_inv: "session_inv (run evs)"
proof (induction evs rule: rev_induct)
  case Nil
  show ?case by (simp add: run_def initial_inv)
next
  case (snoc e evs)
  then show ?case by (simp only: run_snoc dispatch_inv)
qed





lemma begin_guards:
  "(generateNextPart_begin s = (s, None) \<longleftrightarrow> analysis s = None \<or> 4 \<le> currentPartIndex s) \<and>
   (startAnalysis_begin s = (s, None) \<longleftrightarrow> files s = [])"
  by (auto simp: generateNextPart_begin_def startAnalysis_begin_def split: option.splits)

lemma pending_at_most_one: "pending_ok cs s \<Longrightarrow> length cs \<le> 1"
  by (cases cs rule: pending_cases) simp_all

lemma pending_buttons:
  "pending_ok cs s \<Longrightarrow> cs \<noteq> [] \<or> status s = GENERATING \<Longrightarrow>
     \<not> analyzeButtonShown s \<and> \<not> generateButtonEnabled s"
  by (cases cs rule: pending_cases) (auto simp: analyzeButtonShown_def generateButtonEnabled_def)

lemma run_generating:
  "run [FilesLoaded [sampleFile], ClickAnalyze, AnalysisSettled 0 (Parsed sampleAnalysis), ClickGenerate] =
   \<lparr> ui = sampleGenerating, pending = [GenerationCall (sampleAnalysis, 0, [])] \<rparr>"
  by (simp add: run_def initialSession_def initialState_def filesLoaded_def analyzeButtonShown_def
      startAnalysis_begin_def at_def remove_nth_def startAnalysis_settle_def analyzeTextbook_def
      generateButtonEnabled_def generateNextPart_begin_def sampleGenerating_def sampleReady_def)

text \<open>
  C1, as stated: \<open>generateNextPart\<close> invoked while the status is \<open>GENERATING\<close>, and
  \<open>startAnalysis\<close> invoked while it is \<open>ANALYZING\<close>, change nothing and issue no call.
  Neither function reads the status: in the two states below each of them issues a call.
\<close>

theorem begin_ignores_status_counterexample:
  "status sampleGenerating = GENERATING \<and>
   generateNextPart_begin sampleGenerating =
     (sampleGenerating\<lparr>error := None\<rparr>, Some (sampleAnalysis, 0, [])) \<and>
   status sampleAnalyzing = ANALYZING \<and>
   startAnalysis_begin sampleAnalyzing = (sampleAnalyzing\<lparr>error := None\<rparr>, Some [sampleFile])"
  by (simp add: sampleGenerating_def sampleReady_def sampleAnalyzing_def initialState_def
      generateNextPart_begin_def startAnalysis_begin_def)

text \<open>
  C1, amended: \<open>generateNextPart\<close> returns without effect exactly when there is no
  analysis or the part index is 4 or more, \<open>startAnalysis\<close> exactly when there is no
  file; neither reads the status. The refusal is in the buttons: with the status
  \<open>ANALYZING\<close> neither button is there, and in every session, while the status is
  \<open>GENERATING\<close> or a call is pending, neither button is there and a click on either
  changes nothing. So in every session at most one call is pending.
\<close>

theorem one_call_in_flight:
  "(generateNextPart_begin s = (s, None) \<longleftrightarrow> analysis s = None \<or> 4 \<le> currentPartIndex s) \<and>
   (startAnalysis_begin s = (s, None) \<longleftrightarrow> files s = []) \<and>
   (status s = ANALYZING \<longrightarrow> \<not> analyzeButtonShown s \<and> \<not> generateButtonEnabled s) \<and>
   (status (ui (run evs)) = GENERATING \<or> pending (run evs) \<noteq> [] \<longrightarrow>
      \<not> analyzeButtonShown (ui (run evs)) \<and> \<not> generateButtonEnabled (ui (run evs)) \<and>
      dispatch ClickAnalyze (run evs) = run evs \<and>
      dispatch ClickGenerate (run evs) = run evs) \<and>
   length (pending (run evs)) \<le> 1"
proof -
  have ok: "pending_ok (pending (run evs)) (ui (run evs))"
    using run_inv [of evs] by (simp add: session_inv_def)
  have "status (ui (run evs)) = GENERATING \<or> pending (run evs) \<noteq> [] \<longrightarrow>
      \<not> analyzeButtonShown (ui (run evs)) \<and> \<not> generateButtonEnabled (ui (run evs))"
    using pending_buttons [OF ok] by blast
  moreover have "status s = ANALYZING \<longrightarrow> \<not> analyzeButtonShown s \<and> \<not> generateButtonEnabled s"
    by (simp add: analyzeButtonShown_def generateButtonEnabled_def)
  ultimately show ?thesis
    using begin_guards [of s] pending_at_most_one [OF ok] by simp
qed

theorem one_call_in_flight_witness:
  "status sampleAnalyzing = ANALYZING \<and>
   \<not> analyzeButtonShown sampleAnalyzing \<and> \<not> generateButtonEnabled sampleAnalyzing \<and>
   status (ui (run [FilesLoaded [sampleFile], ClickAnalyze,
                    AnalysisSettled 0 (Parsed sampleAnalysis), ClickGenerate])) = GENERATING \<and>
   pending (run [FilesLoaded [sampleFile], ClickAnalyze,
                 AnalysisSettled 0 (Parsed sampleAnalysis), ClickGenerate]) =
     [GenerationCall (sampleAnalysis, 0, [])] \<and>
   dispatch ClickGenerate (run [FilesLoaded [sampleFile], ClickAnalyze,
                                AnalysisSettled 0 (Parsed sampleAnalysis), ClickGenerate]) =
     run [FilesLoaded [sampleFile], ClickAnalyze,
          AnalysisSettled 0 (Parsed sampleAnalysis), ClickGenerate]"
proof -
  have a: "status sampleAnalyzing = ANALYZING"
    by (simp add: sampleAnalyzing_def)
  have g: "status (ui (run [FilesLoaded [sampleFile], ClickAnalyze,
                    AnalysisSettled 0 (Parsed sampleAnalysis), ClickGenerate])) = GENERATING"
    by (simp add: run_generating sampleGenerating_def)
  from one_call_in_flight [of sampleAnalyzing "[FilesLoaded [sampleFile], ClickAnalyze,
      AnalysisSettled 0 (Parsed sampleAnalysis), ClickGenerate]"] a g
  show ?thesis
    by (simp add: run_generating)
qed



section \<open>CSV export\<close>

lemma dquote_neq [simp]: "dquote \<noteq> CHR '',''" "dquote \<noteq> CHR 0x0A" "CHR '','' \<noteq> dquote" "CHR 0x0A \<noteq> dquote"
  by (simp_all add: dquote_def)

lemma read_quoted_body:
  "readFields InQuoted f row rows (doubleQuotes s @ dquote # rest) =
   readFields AfterQuote (f @ s) row rows rest"
  by (induction s arbitrary: f) simp_all

lemma read_quoted:
  "readFields FieldStart [] row rows (quoted s @ rest) = readFields AfterQuote s row rows rest"
  using read_quoted_body [of "[]" row rows s rest] by (simp add: quoted_def)

lemma read_bare:
  assumes "plain s" and "m = FieldStart \<or> m = InBare"
  shows "readFields m f row rows (s @ rest) =
         readFields (if s = [] then m else InBare) (f @ s) row rows rest"
  using assms
proof (induction s arbitrary: f m)
  case Nil
  show ?case by simp
next
  case (Cons c s)
  from Cons.prems have c: "c \<noteq> dquote" "c \<noteq> CHR '',''" "c \<noteq> CHR 0x0A" and s: "plain s"
    by (auto simp: plain_def)
  have "readFields m f row rows ((c # s) @ rest) = readFields InBare (f @ [c]) row rows (s @ rest)"
    using c Cons.prems(2) by auto
  also have "\<dots> = readFields (if s = [] then InBare else InBare) ((f @ [c]) @ s) row rows rest"
    by (rule Cons.IH [OF s]) simp
  finally show ?case by simp
qed

lemma read_comma:
  "m \<noteq> InQuoted \<Longrightarrow>
   readFields m f row rows (CHR '','' # rest) = readFields FieldStart [] (row @ [f]) rows rest"
  by simp

lemma read_newline:
  "m \<noteq> InQuoted \<Longrightarrow>
   readFields m f row rows (CHR 0x0A # rest) = readFields FieldStart [] [] (rows @ [row @ [f]]) rest"
  by simp

lemma plain_answerText: "plain (answerText x) \<and> answerText x \<noteq> []"
  by (cases x) (simp_all add: plain_def dquote_def)

lemma read_row:
  assumes "plain (partName q)" and "plain (chapterTitle q)"
  shows "readFields FieldStart [] [] rows (join '','' (csvRow q) @ rest) =
         readFields InBare (answerText (correctAnswer q)) (butlast (csvFields q)) rows rest"
proof -
  let ?ans = "answerText (correctAnswer q)"
  have ans: "plain ?ans" "?ans \<noteq> []"
    using plain_answerText [of "correctAnswer q"] by simp_all
  have bare: "\<And>s m f row rest'. plain s \<Longrightarrow> m = FieldStart \<or> m = InBare \<Longrightarrow>
      readFields m f row rows (s @ CHR '','' # rest') = readFields FieldStart [] (row @ [f @ s]) rows rest'"
    by (auto simp: read_bare)
  have quo: "\<And>s row rest'.
      readFields FieldStart [] row rows (quoted s @ CHR '','' # rest') = readFields FieldStart [] (row @ [s]) rows rest'"
    by (simp add: read_quoted)
  have "readFields FieldStart [] [] rows (join '','' (csvRow q) @ rest) =
        readFields FieldStart [] [partName q, chapterTitle q, question q, A (options q),
          B (options q), C (options q), D (options q)] rows (?ans @ rest)"
    using assms by (simp add: csvRow_def bare quo)
  also have "\<dots> = readFields InBare ?ans [partName q, chapterTitle q, question q, A (options q),
          B (options q), C (options q), D (options q)] rows rest"
    using ans by (simp add: read_bare)
  finally show ?thesis
    by (simp add: csvFields_def)
qed

lemma butlast_csvFields: "butlast (csvFields q) @ [answerText (correctAnswer q)] = csvFields q"
  by (simp add: csvFields_def)

lemma read_rows:
  assumes "list_all (\<lambda>q. plain (partName q) \<and> plain (chapterTitle q)) (q # qs)"
  shows "readFields FieldStart [] [] rows
           (join [CHR 0x0A] (map (\<lambda>r. join '','' r) (map csvRow (q # qs)))) =
         rows @ map csvFields (q # qs)"
  using assms
proof (induction qs arbitrary: q rows)
  case Nil
  then have "readFields FieldStart [] [] rows (join '','' (csvRow q) @ []) =
      readFields InBare (answerText (correctAnswer q)) (butlast (csvFields q)) rows []"
    by (intro read_row) simp_all
  then show ?case
    by (simp add: butlast_csvFields)
next
  case (Cons q' qs)
  let ?rest = "join [CHR 0x0A] (map (\<lambda>r. join '','' r) (map csvRow (q' # qs)))"
  from Cons.prems have q: "plain (partName q)" "plain (chapterTitle q)"
    and rest: "list_all (\<lambda>q. plain (partName q) \<and> plain (chapterTitle q)) (q' # qs)"
    by simp_all
  have "readFields FieldStart [] [] rows (join '','' (csvRow q) @ CHR 0x0A # ?rest) =
      readFields InBare (answerText (correctAnswer q)) (butlast (csvFields q)) rows (CHR 0x0A # ?rest)"
    by (rule read_row [OF q])
  also have "\<dots> = readFields FieldStart [] [] (rows @ [csvFields q]) ?rest"
    by (simp add: butlast_csvFields)
  also have "\<dots> = (rows @ [csvFields q]) @ map csvFields (q' # qs)"
    by (rule Cons.IH [OF rest])
  finally show ?case
    by simp
qed

lemma read_headers:
  "readFields FieldStart [] [] [] (join '','' headers @ rest) =
   readFields InBare ''Correct Answer'' (butlast headers) [] rest"
  by (simp add: headers_def dquote_def)

text \<open>
  When the names of the part and of the chapter of every question need no quoting, reading
  the export gives the header row and then, for each question in order, its fields as
  they were: the escaping of the question and of the options is undone exactly.
\<close>

lemma readCSV_convertToCSV_plain:
  assumes "list_all (\<lambda>q. plain (partName q) \<and> plain (chapterTitle q)) qs"
  shows "readCSV (convertToCSV qs) = headers # map csvFields qs"
proof (cases qs)
  case Nil
  have "readFields FieldStart [] [] [] (join '','' headers @ []) = [headers]"
    by (subst read_headers) (simp add: headers_def)
  with Nil show ?thesis
    by (simp add: readCSV_def convertToCSV_def)
next
  case (Cons q qs')
  let ?rest = "join [CHR 0x0A] (map (\<lambda>r. join '','' r) (map csvRow (q # qs')))"
  have "readFields FieldStart [] [] [] (join '','' headers @ CHR 0x0A # ?rest) =
      readFields InBare ''Correct Answer'' (butlast headers) [] (CHR 0x0A # ?rest)"
    by (rule read_headers)
  also have "\<dots> = readFields FieldStart [] [] [headers] ?rest"
    by (simp add: headers_def)
  also have "\<dots> = [headers] @ map csvFields (q # qs')"
    using assms Cons by (intro read_rows) simp
  finally show ?thesis
    using Cons by (simp add: readCSV_def convertToCSV_def)
qed

text \<open>The questions exported for part \<open>k\<close> are the hundred from position \<open>100 * k\<close> on.\<close>

lemma filter_enumerate_interval:
  "map snd (filter (\<lambda>(i, q). lo \<le> i \<and> i < hi) (enumerate 0 qs)) = take (hi - lo) (drop lo qs)"
proof (induction qs rule: rev_induct)
  case Nil
  show ?case by simp
next
  case (snoc x xs)
  show ?case
  proof (cases "lo \<le> length xs \<and> length xs < hi")
    case True
    then obtain n where "hi - length xs = Suc n"
      by (cases "hi - length xs") auto
    with True snoc show ?thesis
      by (simp add: enumerate_append_eq)
  next
    case False
    with snoc show ?thesis
      by (auto simp: enumerate_append_eq)
  qed
qed

lemma questionsToExport_slice:
  "questionsToExport None qs = qs \<and>
   questionsToExport (Some k) qs = take 100 (drop (100 * k) qs)"
proof -
  have "(\<lambda>(i :: nat, q :: MCQ). i div 100 = k) = (\<lambda>(i, q). 100 * k \<le> i \<and> i < 100 * k + 100)"
    by (auto simp: fun_eq_iff)
  then show ?thesis
    using filter_enumerate_interval [of "100 * k" "100 * k + 100" qs]
    by (simp add: questionsToExport_def)
qed

text \<open>
  C3. Every string field that holds a double quote should be written with the quote
  doubled and the field quoted, so that reading an export gives back the question, the
  options and the correct answer. \<open>convertToCSV\<close> does so for the question and the
  options, and writes the names of the part and of the chapter as they are. For the
  question of part \<^verbatim>\<open>Calculus, Part 1\<close> and chapter \<^verbatim>\<open>The "Chain" Rule\<close> the
  quotes of the chapter are neither doubled nor wrapped, the row reads as nine fields, and
  the field under the header \<^verbatim>\<open>Question\<close> is the name of the chapter.
\<close>

theorem convertToCSV_part_and_chapter_verbatim:
  "convertToCSV [quotedQuestion] =
     ''Part,Chapter,Question,Option A,Option B,Option C,Option D,Correct Answer'' @ [CHR 0x0A] @
     ''Calculus, Part 1,The '' @ [dquote] @ ''Chain'' @ [dquote] @ '' Rule,'' @
     [dquote] @ ''She said '' @ [dquote, dquote] @ ''x=2'' @ [dquote, dquote, dquote] @ '','' @
     [dquote] @ ''1'' @ [dquote] @ '','' @ [dquote] @ ''2'' @ [dquote] @ '','' @
     [dquote] @ ''3'' @ [dquote] @ '','' @ [dquote] @ ''4'' @ [dquote] @ '',B'' \<and>
   readCSV (convertToCSV [quotedQuestion]) =
     [headers,
      [''Calculus'', '' Part 1'', chapterTitle quotedQuestion, question quotedQuestion,
       ''1'', ''2'', ''3'', ''4'', ''B'']] \<and>
   readCSV (convertToCSV [quotedQuestion]) ! 1 ! 2 \<noteq> question quotedQuestion"
  by (simp add: readCSV_def convertToCSV_def csvRow_def quotedQuestion_def quoted_def dquote_def
      headers_def)

end
